theory Spec2Isabelle
  imports Complex_Main "HOL-Library.AList"
begin

section \<open>Python list slicing\<close>

text \<open>
  Both modules slice lists and strings with \<^verbatim>\<open>xs[lo:hi]\<close>. A negative bound counts
  from the end of the sequence, and every bound is clamped to the range of valid
  positions; an empty range gives the empty sequence. \<^verbatim>\<open>xs[:hi]\<close> is \<open>py_slice xs 0 hi\<close>.
\<close>

definition slice_bound :: "int \<Rightarrow> int \<Rightarrow> nat" where
  "slice_bound n i = (if i < 0 then nat (max 0 (n + i)) else nat (min i n))"

definition py_slice :: "'a list \<Rightarrow> int \<Rightarrow> int \<Rightarrow> 'a list" where
  "py_slice xs lo hi =
     (let n = int (length xs); l = slice_bound n lo; h = slice_bound n hi
      in take (h - l) (drop l xs))"

section \<open>text\_chunker.py\<close>

text \<open>
  The text is a list of characters; the chunker only counts them, slices them and, in
  \<^verbatim>\<open>strip()\<close>, asks whether they are whitespace. \<open>py_isspace\<close> is \<^verbatim>\<open>str.isspace\<close> on the
  code points below 256.
\<close>

definition py_isspace :: "char \<Rightarrow> bool" where
  "py_isspace c =
     (let n = (of_char c :: nat)
      in (9 \<le> n \<and> n \<le> 13) \<or> (28 \<le> n \<and> n \<le> 32) \<or> n = 133 \<or> n = 160)"

definition strip :: "string \<Rightarrow> string" where
  "strip s = rev (dropWhile py_isspace (rev (dropWhile py_isspace s)))"

text \<open>
  The tiktoken encoding is a library outside the repository, so it is a parameter of the
  model. \<open>encode\<close> gives \<open>None\<close> when \<^verbatim>\<open>tiktoken.get_encoding\<close> or \<^verbatim>\<open>encoding.encode\<close>
  raises (the chunker then falls back to characters); \<open>decode\<close> is total, as
  \<^verbatim>\<open>encoding.decode\<close> replaces what it cannot decode instead of raising.
\<close>

record tokenizer =
  encode :: "string \<Rightarrow> nat list option"
  decode :: "nat list \<Rightarrow> string"

text \<open>The dictionary that \<^verbatim>\<open>chunk_text\<close> appends for each chunk.\<close>

record chunk =
  text_of :: string
  chunk_index :: int
  start_char :: int
  end_char :: int

definition CHUNK_SIZE_TOKENS :: int where "CHUNK_SIZE_TOKENS = 1000"
definition CHUNK_OVERLAP_TOKENS :: int where "CHUNK_OVERLAP_TOKENS = 150"
definition CHUNK_SIZE_CHARS :: int where "CHUNK_SIZE_CHARS = 4000"
definition CHUNK_OVERLAP_CHARS :: int where "CHUNK_OVERLAP_CHARS = 500"

text \<open>
  The token loop (lines 45 to 71). Nothing bounds the number of iterations for every
  window size and overlap, so the loop is a partial function: \<open>None\<close> means that it
  never returns.
\<close>

partial_function (option) token_loop ::
  "tokenizer \<Rightarrow> nat list \<Rightarrow> int \<Rightarrow> int \<Rightarrow> int \<Rightarrow> int \<Rightarrow> chunk list \<Rightarrow> chunk list option"
where
  "token_loop tk tokens chunk_size_tokens overlap_tokens i idx chunks =
     (if i < int (length tokens) then
        (let chunk_tokens = py_slice tokens i (i + chunk_size_tokens);
             chunk_txt = decode tk chunk_tokens;
             tokens_before = py_slice tokens 0 i;
             start = int (length (decode tk tokens_before));
             stop = start + int (length chunk_txt);
             chunks' = chunks @ [\<lparr>text_of = chunk_txt, chunk_index = idx,
                                   start_char = start, end_char = stop\<rparr>];
             i' = i + (chunk_size_tokens - overlap_tokens);
             idx' = idx + 1
         in if i' \<ge> int (length tokens) then Some chunks'
            else if i' = 0
              then token_loop tk tokens chunk_size_tokens overlap_tokens
                     (chunk_size_tokens - overlap_tokens) idx' chunks'
              else token_loop tk tokens chunk_size_tokens overlap_tokens i' idx' chunks')
      else Some chunks)"

declare token_loop.simps [code]

text \<open>
  The character loop of the fallback (lines 84 to 103): its window and overlap are the
  module constants, whatever was passed to \<^verbatim>\<open>chunk_text\<close>.
\<close>

function char_loop :: "string \<Rightarrow> int \<Rightarrow> int \<Rightarrow> chunk list \<Rightarrow> chunk list" where
  "char_loop txt i idx chunks =
     (if i < int (length txt) then
        (let stop = min (i + CHUNK_SIZE_CHARS) (int (length txt));
             chunk_txt = py_slice txt i stop;
             chunks' = chunks @ [\<lparr>text_of = chunk_txt, chunk_index = idx,
                                   start_char = i, end_char = stop\<rparr>];
             i' = i + (CHUNK_SIZE_CHARS - CHUNK_OVERLAP_CHARS);
             idx' = idx + 1
         in if i' \<ge> int (length txt) then chunks'
            else if i' = 0
              then char_loop txt (CHUNK_SIZE_CHARS - CHUNK_OVERLAP_CHARS) idx' chunks'
              else char_loop txt i' idx' chunks')
      else chunks)"
  by pat_completeness auto

termination
  by (relation "measure (\<lambda>(txt, i, idx, chunks). nat (int (length txt) - i))")
     (auto simp: CHUNK_SIZE_CHARS_def CHUNK_OVERLAP_CHARS_def)

declare char_loop.simps [simp del]

text \<open>
  \<^verbatim>\<open>chunk_text(text, chunk_size, overlap)\<close>. The result is \<open>None\<close> when the call never
  returns. An exception of the tokenizer is raised before the first chunk is appended, so
  the fallback starts from the empty list.
\<close>

definition chunk_text :: "tokenizer \<Rightarrow> string \<Rightarrow> int \<Rightarrow> int \<Rightarrow> chunk list option" where
  "chunk_text tk txt chunk_size overlap =
     (if txt = [] \<or> length (strip txt) = 0 then Some []
      else (case encode tk txt of
              Some tokens \<Rightarrow> token_loop tk tokens chunk_size overlap 0 0 []
            | None \<Rightarrow> Some (char_loop txt 0 0 [])))"

text \<open>
  Two tokenizers to run the chunker on: one whose encoding is unavailable, and one that
  makes every character a token.
\<close>

definition no_tokenizer :: tokenizer where
  "no_tokenizer = \<lparr>encode = (\<lambda>s. None), decode = map char_of\<rparr>"

definition char_tokenizer :: tokenizer where
  "char_tokenizer = \<lparr>encode = (\<lambda>s. Some (map of_char s)), decode = map char_of\<rparr>"

text \<open>
  The dictionary appended by one iteration of the token loop, and by one iteration of the
  character loop.
\<close>

definition token_chunk :: "tokenizer \<Rightarrow> nat list \<Rightarrow> int \<Rightarrow> int \<Rightarrow> int \<Rightarrow> chunk" where
  "token_chunk tk tokens chunk_size_tokens i idx =
     \<lparr>text_of = decode tk (py_slice tokens i (i + chunk_size_tokens)), chunk_index = idx,
      start_char = int (length (decode tk (py_slice tokens 0 i))),
      end_char = int (length (decode tk (py_slice tokens 0 i)))
                  + int (length (decode tk (py_slice tokens i (i + chunk_size_tokens))))\<rparr>"

definition char_chunk :: "string \<Rightarrow> int \<Rightarrow> int \<Rightarrow> chunk" where
  "char_chunk txt i idx =
     \<lparr>text_of = py_slice txt i (min (i + CHUNK_SIZE_CHARS) (int (length txt))),
      chunk_index = idx, start_char = i,
      end_char = min (i + CHUNK_SIZE_CHARS) (int (length txt))\<rparr>"

text \<open>
  What the offsets of the token mode need from the decoder: decoding a longer token
  sequence never gives a shorter string, decoding a concatenation never gives more
  characters than decoding its two parts, and a non-empty token sequence decodes to a
  non-empty string. A byte-level decoder that replaces incomplete characters has all
  three; the offsets are exact when the second holds with equality.
\<close>

definition decode_lengths_ok :: "tokenizer \<Rightarrow> bool" where
  "decode_lengths_ok tk \<longleftrightarrow>
     (\<forall>a b. length (decode tk a) \<le> length (decode tk (a @ b))
          \<and> length (decode tk (a @ b)) \<le> length (decode tk a) + length (decode tk b))
     \<and> (\<forall>a. a \<noteq> [] \<longrightarrow> decode tk a \<noteq> [])"

text \<open>
  For the chunks to cover the source text, the tokenizer must moreover decode the empty
  token sequence to the empty string and decode what it encoded back to the same text.
\<close>

definition tokenizer_ok :: "tokenizer \<Rightarrow> bool" where
  "tokenizer_ok tk \<longleftrightarrow>
     decode_lengths_ok tk \<and> decode tk [] = []
     \<and> (\<forall>s tokens. encode tk s = Some tokens \<longrightarrow> decode tk tokens = s)"

text \<open>
  The two properties of a chunk list that the loops keep: every chunk ends at its start
  plus the length of its text and is numbered by its position; and no chunk is empty or
  starts after its predecessor ends.
\<close>

definition offsets_ok :: "chunk list \<Rightarrow> bool" where
  "offsets_ok cs \<longleftrightarrow>
     (\<forall>k<length cs. end_char (cs ! k) = start_char (cs ! k) + int (length (text_of (cs ! k)))
                    \<and> chunk_index (cs ! k) = int k)"

definition no_gaps :: "chunk list \<Rightarrow> bool" where
  "no_gaps cs \<longleftrightarrow>
     (\<forall>k. Suc k < length cs \<longrightarrow> start_char (cs ! Suc k) \<le> end_char (cs ! k))
     \<and> (\<forall>k<length cs. start_char (cs ! k) < end_char (cs ! k))"

section \<open>simple\_vector\_store.py\<close>

text \<open>
  Numbers are real numbers: numpy's float64 arithmetic is idealised, so rounding, overflow
  and NaN are outside the model. Python values are the strings, integers, floats and
  dictionaries that chunk dictionaries and search results hold; a dictionary is an
  association list in insertion order, as Python keeps it.
\<close>

datatype py_error = ValueError | IndexError | DivideByZero | OSError

datatype pyval = PyStr string | PyInt int | PyFloat real | PyDict "(string \<times> pyval) list"

type_synonym pydict = "(string \<times> pyval) list"

definition dict_get :: "pydict \<Rightarrow> string \<Rightarrow> pyval \<Rightarrow> pyval" where
  "dict_get d k dflt = (case map_of d k of None \<Rightarrow> dflt | Some v \<Rightarrow> v)"

definition dict_set :: "pydict \<Rightarrow> string \<Rightarrow> pyval \<Rightarrow> pydict" where
  "dict_set d k v = AList.update k v d"

text \<open>
  \<^verbatim>\<open>np.dot\<close> of two one-dimensional arrays raises ValueError when their lengths differ;
  \<^verbatim>\<open>np.linalg.norm\<close> is the Euclidean norm. A division whose denominator is zero is made
  visible as the error \<open>DivideByZero\<close>.
\<close>

definition np_dot :: "real list \<Rightarrow> real list \<Rightarrow> py_error + real" where
  "np_dot a b =
     (if length a \<noteq> length b then Inl ValueError else Inr (sum_list (map2 (*) a b)))"

definition np_norm :: "real list \<Rightarrow> real" where
  "np_norm v = sqrt (sum_list (map (\<lambda>x. x * x) v))"

definition np_divide :: "real \<Rightarrow> real \<Rightarrow> py_error + real" where
  "np_divide a b = (if b = 0 then Inl DivideByZero else Inr (a / b))"

definition cosine_similarity :: "real list \<Rightarrow> real list \<Rightarrow> py_error + real" where
  "cosine_similarity vec1 vec2 =
     (case np_dot vec1 vec2 of
        Inl e \<Rightarrow> Inl e
      | Inr dot_product \<Rightarrow>
          (let norm1 = np_norm vec1; norm2 = np_norm vec2
           in if norm1 = 0 \<or> norm2 = 0 then Inr 0
              else np_divide dot_product (norm1 * norm2)))"

text \<open>
  A \<^verbatim>\<open>SimpleVectorStore\<close> object. Its \<^verbatim>\<open>storage_file\<close> is fixed by the document
  identifier, so it is a function of it.
\<close>

record SimpleVectorStore =
  self_doc_id :: string
  self_embeddings :: "real list list"
  self_chunks :: "pydict list"

definition STORAGE_DIR :: string where
  "STORAGE_DIR = ''./vector_storage''"

definition storage_file :: "string \<Rightarrow> string" where
  "storage_file doc_id = STORAGE_DIR @ ''/doc_'' @ doc_id @ ''.json''"

text \<open>
  A file of the storage directory either cannot be read as JSON, or holds an object in
  which each of the three keys that \<^verbatim>\<open>_save\<close> writes may be present. \<^verbatim>\<open>json.dump\<close> and
  \<^verbatim>\<open>json.load\<close>, and \<^verbatim>\<open>np.array\<close> and \<^verbatim>\<open>tolist\<close>, are taken as inverse to each other.
\<close>

record json_data =
  json_doc_id :: "string option"
  json_embeddings :: "real list list option"
  json_chunks :: "pydict list option"

datatype file_content = Unreadable | Json json_data

text \<open>
  The state outside the objects: the module's registry \<^verbatim>\<open>_stores\<close>, the files by path,
  the paths that the operating system refuses to look up (a file name that is too long,
  for one), and the paths that it looks up but does not open for writing.
\<close>

record world =
  stores :: "string \<rightharpoonup> SimpleVectorStore"
  files :: "string \<rightharpoonup> file_content"
  unreachable :: "string set"
  read_only :: "string set"

text \<open>
  \<^verbatim>\<open>Path.exists()\<close> asks the operating system for the file's status. It answers False
  when the file is missing, and raises OSError when the path is refused. Opening a refused
  path raises the same error, so a path cannot be written when it is refused or read-only.
\<close>

definition path_exists :: "world \<Rightarrow> string \<Rightarrow> py_error + bool" where
  "path_exists w p = (if p \<in> unreachable w then Inl OSError else Inr (files w p \<noteq> None))"

definition unwritable :: "world \<Rightarrow> string set" where
  "unwritable w = unreachable w \<union> read_only w"

text \<open>
  \<^verbatim>\<open>_load\<close>: the call of \<^verbatim>\<open>exists()\<close> is in front of the \<^verbatim>\<open>try\<close>, so its error leaves the
  method; whatever goes wrong while the file is read is caught and empties the store.
\<close>

definition load :: "world \<Rightarrow> SimpleVectorStore \<Rightarrow> py_error + SimpleVectorStore" where
  "load w self =
     (case path_exists w (storage_file (self_doc_id self)) of
        Inl e \<Rightarrow> Inl e
      | Inr False \<Rightarrow> Inr self
      | Inr True \<Rightarrow>
          (case files w (storage_file (self_doc_id self)) of
             Some (Json data) \<Rightarrow>
               Inr (self\<lparr>self_embeddings :=
                           (case json_embeddings data of None \<Rightarrow> [] | Some e \<Rightarrow> e),
                         self_chunks := (case json_chunks data of None \<Rightarrow> [] | Some c \<Rightarrow> c)\<rparr>)
           | _ \<Rightarrow> Inr (self\<lparr>self_embeddings := [], self_chunks := []\<rparr>)))"

definition init :: "string \<Rightarrow> world \<Rightarrow> py_error + SimpleVectorStore" where
  "init doc_id w = load w \<lparr>self_doc_id = doc_id, self_embeddings = [], self_chunks = []\<rparr>"

definition save :: "SimpleVectorStore \<Rightarrow> world \<Rightarrow> world" where
  "save self w =
     (if storage_file (self_doc_id self) \<in> unwritable w then w
      else w\<lparr>files := (files w)(storage_file (self_doc_id self) \<mapsto>
             Json \<lparr>json_doc_id = Some (self_doc_id self),
                   json_embeddings = Some (self_embeddings self),
                   json_chunks = Some (self_chunks self)\<rparr>)\<rparr>)"

definition add ::
  "pydict list \<Rightarrow> real list list \<Rightarrow> SimpleVectorStore \<Rightarrow> world
     \<Rightarrow> (py_error + unit) \<times> SimpleVectorStore \<times> world" where
  "add chunks embeddings self w =
     (if length chunks \<noteq> length embeddings then (Inl ValueError, self, w)
      else (let self' = self\<lparr>self_chunks := chunks, self_embeddings := embeddings\<rparr>
            in (Inr (), self', save self' w)))"

text \<open>The loop over \<^verbatim>\<open>enumerate(self.embeddings)\<close>, counting from \<open>i\<close>.\<close>

fun similarities :: "real list \<Rightarrow> real list list \<Rightarrow> nat \<Rightarrow> py_error + (nat \<times> real) list" where
  "similarities query_vec [] i = Inr []"
| "similarities query_vec (emb # embs) i =
     (case cosine_similarity query_vec emb of
        Inl e \<Rightarrow> Inl e
      | Inr sim \<Rightarrow>
          (case similarities query_vec embs (Suc i) of
             Inl e \<Rightarrow> Inl e
           | Inr rest \<Rightarrow> Inr ((i, sim) # rest)))"

text \<open>
  \<^verbatim>\<open>similarities.sort(key=lambda x: x[1], reverse=True)\<close>: Python's sort is stable, also
  with \<^verbatim>\<open>reverse=True\<close>, and so is \<open>sort_key\<close> on the negated score.
\<close>

definition rank :: "(nat \<times> real) list \<Rightarrow> (nat \<times> real) list" where
  "rank sims = sort_key (\<lambda>(i, sim). - sim) sims"

definition with_score :: "pydict \<Rightarrow> real \<Rightarrow> pydict" where
  "with_score chunk score = dict_set chunk ''score'' (PyFloat score)"

text \<open>The loop that builds the results; \<^verbatim>\<open>self.chunks[idx]\<close> raises IndexError out of range.\<close>

fun collect_results :: "pydict list \<Rightarrow> (nat \<times> real) list \<Rightarrow> py_error + pydict list" where
  "collect_results chunks [] = Inr []"
| "collect_results chunks ((idx, score) # rest) =
     (if idx < length chunks then
        (case collect_results chunks rest of
           Inl e \<Rightarrow> Inl e
         | Inr results \<Rightarrow> Inr (with_score (chunks ! idx) score # results))
      else Inl IndexError)"

definition search :: "SimpleVectorStore \<Rightarrow> real list \<Rightarrow> int \<Rightarrow> py_error + pydict list" where
  "search self query_embedding top_k =
     (if length (self_embeddings self) = 0 then Inr []
      else (case similarities query_embedding (self_embeddings self) 0 of
              Inl e \<Rightarrow> Inl e
            | Inr sims \<Rightarrow> collect_results (self_chunks self) (py_slice (rank sims) 0 top_k)))"

text \<open>
  \<^verbatim>\<open>get_or_create_store\<close>: when the constructor raises, nothing is assigned to the
  registry.
\<close>

definition get_or_create_store ::
  "string \<Rightarrow> world \<Rightarrow> py_error + SimpleVectorStore \<times> world" where
  "get_or_create_store doc_id w =
     (case stores w doc_id of
        Some store \<Rightarrow> Inr (store, w)
      | None \<Rightarrow>
          (case init doc_id w of
             Inl e \<Rightarrow> Inl e
           | Inr store \<Rightarrow> Inr (store, w\<lparr>stores := (stores w)(doc_id \<mapsto> store)\<rparr>)))"

text \<open>
  \<^verbatim>\<open>store_document\<close> and \<^verbatim>\<open>search_document\<close> return the world next to the result or the
  error, so that what an exception leaves behind can be stated. The store object is the
  one in the registry, so its update by \<^verbatim>\<open>add\<close> is written back there.
\<close>

definition store_document ::
  "string \<Rightarrow> pydict list \<Rightarrow> real list list \<Rightarrow> world \<Rightarrow> (py_error + nat) \<times> world" where
  "store_document doc_id chunks embeddings w =
     (if length chunks \<noteq> length embeddings then (Inl ValueError, w)
      else (case get_or_create_store doc_id w of
              Inl e \<Rightarrow> (Inl e, w)
            | Inr (store, w1) \<Rightarrow>
                (case add chunks embeddings store w1 of
                   (Inl e, store', w2) \<Rightarrow> (Inl e, w2\<lparr>stores := (stores w2)(doc_id \<mapsto> store')\<rparr>)
                 | (Inr u, store', w2) \<Rightarrow>
                     (Inr (length chunks), w2\<lparr>stores := (stores w2)(doc_id \<mapsto> store')\<rparr>))))"

definition format_source :: "pydict \<Rightarrow> pydict" where
  "format_source result =
     [(''text'', dict_get result ''text'' (PyStr [])),
      (''score'', dict_get result ''score'' (PyFloat 0)),
      (''chunk_index'', dict_get result ''chunk_index'' (PyInt 0)),
      (''metadata'', PyDict (filter (\<lambda>(k, v). k \<notin> set [''text'', ''score'']) result))]"

definition search_document ::
  "string \<Rightarrow> real list \<Rightarrow> int \<Rightarrow> world \<Rightarrow> (py_error + pydict list) \<times> world" where
  "search_document doc_id query_embedding top_k w =
     (case get_or_create_store doc_id w of
        Inl e \<Rightarrow> (Inl e, w)
      | Inr (store, w1) \<Rightarrow>
          (case search store query_embedding top_k of
             Inl e \<Rightarrow> (Inl e, w1)
           | Inr results \<Rightarrow> (Inr (map format_source results), w1)))"

text \<open>
  The state of a fresh process on an empty storage directory of a Linux file system. The
  storage directory has no subdirectories, so the look-up of a path inside it is decided
  by the first name after the directory: it is refused when that name has more than
  \<open>NAME_MAX\<close> bytes, as is every path of \<open>PATH_MAX\<close> bytes or more. A character below 128
  is one byte of the name, any other character two.
\<close>

definition NAME_MAX :: nat where "NAME_MAX = 255"
definition PATH_MAX :: nat where "PATH_MAX = 4096"

definition utf8_length :: "string \<Rightarrow> nat" where
  "utf8_length s = sum_list (map (\<lambda>c. if (of_char c :: nat) < 128 then 1 else 2) s)"

definition entry_name :: "string \<Rightarrow> string" where
  "entry_name p = takeWhile (\<lambda>c. c \<noteq> CHR ''/'') (drop (length STORAGE_DIR + 1) p)"

definition refused :: "string \<Rightarrow> bool" where
  "refused p \<longleftrightarrow> PATH_MAX \<le> utf8_length p \<or> NAME_MAX < utf8_length (entry_name p)"

definition empty_world :: world where
  "empty_world =
     \<lparr>stores = Map.empty, files = Map.empty, unreachable = {p. refused p}, read_only = {}\<rparr>"


text \<open>The three chunks and vectors of the spec's end-to-end scenario.\<close>

definition apple_chunks :: "pydict list" where
  "apple_chunks =
     [[(''text'', PyStr ''apple pie''), (''chunk_index'', PyInt 0)],
      [(''text'', PyStr ''banana bread''), (''chunk_index'', PyInt 1)],
      [(''text'', PyStr ''apple pie''), (''chunk_index'', PyInt 2)]]"

definition apple_vectors :: "real list list" where
  "apple_vectors = [[1, 0], [0, 1], [1, 0]]"

definition apple_store :: SimpleVectorStore where
  "apple_store = \<lparr>self_doc_id = ''doc'', self_embeddings = apple_vectors, self_chunks = apple_chunks\<rparr>"

section \<open>Slices at non-negative bounds\<close>

lemma py_slice_nonneg:
  "0 \<le> lo \<Longrightarrow> 0 \<le> hi \<Longrightarrow> py_slice xs lo hi = take (nat hi - nat lo) (drop (nat lo) xs)"
  by (auto simp: py_slice_def slice_bound_def Let_def min_def nat_le_iff)

lemma py_slice_prefix: "0 \<le> i \<Longrightarrow> py_slice xs 0 i = take (nat i) xs"
  by (simp add: py_slice_nonneg)

lemma length_py_slice:
  "0 \<le> lo \<Longrightarrow> lo \<le> hi \<Longrightarrow> hi \<le> int (length xs) \<Longrightarrow> int (length (py_slice xs lo hi)) = hi - lo"
  by (simp add: py_slice_nonneg)

lemma py_slice_window_nonempty:
  "0 \<le> i \<Longrightarrow> i < int (length xs) \<Longrightarrow> 0 < sz \<Longrightarrow> py_slice xs i (i + sz) \<noteq> []"
  by (simp add: py_slice_nonneg) linarith

lemma prefix_window_append:
  "0 \<le> i \<Longrightarrow> 0 \<le> sz \<Longrightarrow> py_slice xs 0 i @ py_slice xs i (i + sz) = py_slice xs 0 (i + sz)"
  by (simp add: py_slice_nonneg nat_add_distrib take_add)

lemma py_slice_whole:
  "int (length xs) \<le> hi \<Longrightarrow> py_slice xs 0 hi = xs"
  by (simp add: py_slice_nonneg)

section \<open>The token loop\<close>

lemma token_loop_step:
  "token_loop tk tokens sz ov i idx chunks =
     (if i < int (length tokens) then
        if i + (sz - ov) \<ge> int (length tokens) then Some (chunks @ [token_chunk tk tokens sz i idx])
        else if i + (sz - ov) = 0
          then token_loop tk tokens sz ov (sz - ov) (idx + 1) (chunks @ [token_chunk tk tokens sz i idx])
          else token_loop tk tokens sz ov (i + (sz - ov)) (idx + 1) (chunks @ [token_chunk tk tokens sz i idx])
      else Some chunks)"
  by (subst token_loop.simps) (simp add: Let_def token_chunk_def)

text \<open>
  With a step that is not positive the window start never leaves the non-positive
  numbers, so on a non-empty token sequence no iteration reaches an exit.
\<close>

lemma token_loop_no_result:
  assumes "token_loop tk tokens sz ov i idx chunks = Some y"
  shows "\<not> (tokens \<noteq> [] \<and> sz \<le> ov \<and> i \<le> 0)"
proof (rule token_loop.raw_induct
    [where P = "\<lambda>tk tokens sz ov i idx chunks y. \<not> (tokens \<noteq> [] \<and> sz \<le> ov \<and> i \<le> 0)",
      OF _ assms], goal_cases)
  case (1 f tk tokens sz ov i idx chunks y)
  show ?case
  proof
    assume a: "tokens \<noteq> [] \<and> sz \<le> ov \<and> i \<le> 0"
    then have "0 < length tokens" by simp
    with a have lt: "i < int (length tokens)" and nxt: "\<not> int (length tokens) \<le> i + (sz - ov)"
      by linarith+
    let ?c = "chunks @ [\<lparr>text_of = decode tk (py_slice tokens i (i + sz)), chunk_index = idx,
                start_char = int (length (decode tk (py_slice tokens 0 i))),
                end_char = int (length (decode tk (py_slice tokens 0 i)))
                  + int (length (decode tk (py_slice tokens i (i + sz))))\<rparr>]"
    from 1(2) lt nxt
    have "f tk tokens sz ov (sz - ov) (idx + 1) ?c = Some y
        \<or> f tk tokens sz ov (i + (sz - ov)) (idx + 1) ?c = Some y"
      by (simp add: Let_def split: if_splits)
    then show False
    proof
      assume "f tk tokens sz ov (sz - ov) (idx + 1) ?c = Some y"
      from 1(1)[OF this] a show False by simp
    next
      assume "f tk tokens sz ov (i + (sz - ov)) (idx + 1) ?c = Some y"
      from 1(1)[OF this] a show False by simp
    qed
  qed
qed

lemma token_loop_stalls:
  assumes "tokens \<noteq> []" "sz \<le> ov" "i \<le> 0"
  shows "token_loop tk tokens sz ov i idx chunks = None"
  using token_loop_no_result[of tk tokens sz ov i idx chunks] assms
  by (cases "token_loop tk tokens sz ov i idx chunks") auto

text \<open>
  With a positive step the loop returns, and what every iteration preserves holds of the
  list it returns.
\<close>

lemma token_loop_rule:
  assumes step: "ov < sz"
    and pres: "\<And>i idx chunks. 0 \<le> i \<Longrightarrow> i < int (length tokens) \<Longrightarrow> I i idx chunks \<Longrightarrow>
                 I (i + (sz - ov)) (idx + 1) (chunks @ [token_chunk tk tokens sz i idx])"
  shows "0 \<le> i \<Longrightarrow> I i idx chunks \<Longrightarrow>
         \<exists>cs j n. token_loop tk tokens sz ov i idx chunks = Some cs \<and> I j n cs
                  \<and> int (length tokens) \<le> j"
proof (induction "nat (int (length tokens) - i)" arbitrary: i idx chunks rule: less_induct)
  case less
  show ?case
  proof (cases "i < int (length tokens)")
    case False
    then show ?thesis using less.prems by (subst token_loop_step) auto
  next
    case True
    let ?i = "i + (sz - ov)" and ?cs = "chunks @ [token_chunk tk tokens sz i idx]"
    have inv: "I ?i (idx + 1) ?cs" using pres[OF less.prems(1) True less.prems(2)] .
    show ?thesis
    proof (cases "int (length tokens) \<le> ?i")
      case True
      then show ?thesis using \<open>i < int (length tokens)\<close> inv
        by (subst token_loop_step) auto
    next
      case False
      have pos: "0 \<le> ?i" "?i \<noteq> 0" using step less.prems(1) by auto
      have "nat (int (length tokens) - ?i) < nat (int (length tokens) - i)"
        using step True by auto
      from less.hyps[OF this pos(1) inv]
      show ?thesis using \<open>i < int (length tokens)\<close> False pos
        by (subst token_loop_step) simp
    qed
  qed
qed

section \<open>The character loop\<close>

lemma char_loop_step:
  "char_loop txt i idx chunks =
     (if i < int (length txt) then
        if i + 3500 \<ge> int (length txt) then chunks @ [char_chunk txt i idx]
        else if i + 3500 = 0
          then char_loop txt 3500 (idx + 1) (chunks @ [char_chunk txt i idx])
          else char_loop txt (i + 3500) (idx + 1) (chunks @ [char_chunk txt i idx])
      else chunks)"
  by (subst char_loop.simps)
     (simp add: Let_def char_chunk_def CHUNK_SIZE_CHARS_def CHUNK_OVERLAP_CHARS_def)

lemma char_loop_rule:
  assumes pres: "\<And>i idx chunks. 0 \<le> i \<Longrightarrow> i < int (length txt) \<Longrightarrow> I i idx chunks \<Longrightarrow>
                 I (i + 3500) (idx + 1) (chunks @ [char_chunk txt i idx])"
  shows "0 \<le> i \<Longrightarrow> I i idx chunks \<Longrightarrow>
         \<exists>j n. I j n (char_loop txt i idx chunks) \<and> int (length txt) \<le> j"
proof (induction "nat (int (length txt) - i)" arbitrary: i idx chunks rule: less_induct)
  case less
  show ?case
  proof (cases "i < int (length txt)")
    case False
    then show ?thesis using less.prems by (subst char_loop_step) auto
  next
    case True
    let ?cs = "chunks @ [char_chunk txt i idx]"
    have inv: "I (i + 3500) (idx + 1) ?cs" using pres[OF less.prems(1) True less.prems(2)] .
    show ?thesis
    proof (cases "int (length txt) \<le> i + 3500")
      case True
      then show ?thesis using \<open>i < int (length txt)\<close> inv
        by (subst char_loop_step) auto
    next
      case False
      have pos: "0 \<le> i + 3500" "i + 3500 \<noteq> 0" using less.prems(1) by auto
      have "nat (int (length txt) - (i + 3500)) < nat (int (length txt) - i)"
        using True by auto
      from less.hyps[OF this pos(1) inv]
      show ?thesis using \<open>i < int (length txt)\<close> False pos
        by (subst char_loop_step) simp
    qed
  qed
qed

section \<open>What the loops preserve\<close>

lemma offsets_ok_snoc:
  assumes "offsets_ok cs" "end_char c = start_char c + int (length (text_of c))"
    "chunk_index c = int (length cs)"
  shows "offsets_ok (cs @ [c])"
  using assms by (auto simp: offsets_ok_def nth_append less_Suc_eq)

lemma no_gaps_snoc:
  assumes "no_gaps cs" "start_char c < end_char c" "cs \<noteq> [] \<Longrightarrow> start_char c \<le> end_char (last cs)"
  shows "no_gaps (cs @ [c])"
  unfolding no_gaps_def
proof (intro conjI allI impI)
  fix k assume "Suc k < length (cs @ [c])"
  then consider "Suc k < length cs" | "Suc k = length cs" by fastforce
  then show "start_char ((cs @ [c]) ! Suc k) \<le> end_char ((cs @ [c]) ! k)"
  proof cases
    case 1
    then show ?thesis using assms(1) by (simp add: no_gaps_def nth_append)
  next
    case 2
    then have ne: "cs \<noteq> []" by auto
    with 2 have "last cs = cs ! k" by (simp add: last_conv_nth flip: 2)
    with 2 assms(3)[OF ne] show ?thesis by (simp add: nth_append)
  qed
next
  fix k assume "k < length (cs @ [c])"
  then show "start_char ((cs @ [c]) ! k) < end_char ((cs @ [c]) ! k)"
    using assms(1,2) by (auto simp: no_gaps_def nth_append less_Suc_eq)
qed

lemma token_loop_offsets:
  assumes "ov < sz"
  shows "\<exists>cs. token_loop tk tokens sz ov 0 0 [] = Some cs \<and> offsets_ok cs"
proof -
  let ?I = "\<lambda>(i::int) idx cs. idx = int (length cs) \<and> offsets_ok cs"
  have "\<exists>cs j n. token_loop tk tokens sz ov 0 0 [] = Some cs \<and> ?I j n cs
      \<and> int (length tokens) \<le> j"
  proof (rule token_loop_rule[where I = ?I, OF assms])
    fix i idx chunks
    assume "?I i idx chunks"
    then show "?I (i + (sz - ov)) (idx + 1) (chunks @ [token_chunk tk tokens sz i idx])"
      by (auto intro!: offsets_ok_snoc simp: token_chunk_def)
  qed (simp_all add: offsets_ok_def)
  then show ?thesis by blast
qed

lemma char_chunk_length:
  assumes "0 \<le> i" "i < int (length txt)"
  shows "end_char (char_chunk txt i idx) = start_char (char_chunk txt i idx)
           + int (length (text_of (char_chunk txt i idx)))"
proof -
  let ?stop = "min (i + CHUNK_SIZE_CHARS) (int (length txt))"
  have "i \<le> ?stop" "?stop \<le> int (length txt)"
    using assms by (auto simp: CHUNK_SIZE_CHARS_def)
  from length_py_slice[OF assms(1) this] show ?thesis
    by (simp add: char_chunk_def)
qed

lemma char_loop_offsets: "offsets_ok (char_loop txt 0 0 [])"
proof -
  let ?I = "\<lambda>(i::int) idx cs. idx = int (length cs) \<and> offsets_ok cs"
  have "\<exists>j n. ?I j n (char_loop txt 0 0 []) \<and> int (length txt) \<le> j"
  proof (rule char_loop_rule[where I = ?I])
    fix i idx chunks
    assume "0 \<le> i" "i < int (length txt)" "?I i idx chunks"
    then show "?I (i + 3500) (idx + 1) (chunks @ [char_chunk txt i idx])"
      using char_chunk_length[of i "txt" idx]
      by (auto intro!: offsets_ok_snoc simp: char_chunk_def)
  qed (simp_all add: offsets_ok_def)
  then show ?thesis by blast
qed

lemma char_loop_no_gaps: "no_gaps (char_loop txt 0 0 [])"
proof -
  let ?I = "\<lambda>(i::int) (idx::int) cs.
     no_gaps cs \<and> (cs \<noteq> [] \<longrightarrow> i < int (length txt) \<longrightarrow> i \<le> end_char (last cs))"
  have "\<exists>j n. ?I j n (char_loop txt 0 0 []) \<and> int (length txt) \<le> j"
  proof (rule char_loop_rule[where I = ?I])
    fix i idx chunks
    assume a: "0 \<le> i" "i < int (length txt)" "?I i idx chunks"
    have "no_gaps (chunks @ [char_chunk txt i idx])"
      using a by (intro no_gaps_snoc) (auto simp: char_chunk_def CHUNK_SIZE_CHARS_def)
    then show "?I (i + 3500) (idx + 1) (chunks @ [char_chunk txt i idx])"
      by (auto simp: char_chunk_def CHUNK_SIZE_CHARS_def)
  qed (simp_all add: no_gaps_def)
  then show ?thesis by blast
qed

lemma decode_prefix_bound:
  assumes ok: "decode_lengths_ok tk" and i: "0 \<le> i" and st: "0 \<le> st" "st \<le> sz"
  shows "length (decode tk (py_slice tokens 0 (i + st)))
           \<le> length (decode tk (py_slice tokens 0 i)) + length (decode tk (py_slice tokens i (i + sz)))"
proof -
  have "py_slice tokens 0 (i + sz) = py_slice tokens 0 (i + st) @ py_slice tokens (i + st) (i + st + (sz - st))"
    using prefix_window_append[of "i + st" "sz - st" tokens] i st by simp
  then have "length (decode tk (py_slice tokens 0 (i + st))) \<le> length (decode tk (py_slice tokens 0 (i + sz)))"
    using ok by (simp add: decode_lengths_ok_def)
  also have "py_slice tokens 0 (i + sz) = py_slice tokens 0 i @ py_slice tokens i (i + sz)"
    using prefix_window_append[of i sz tokens] i st by simp
  also have "length (decode tk (py_slice tokens 0 i @ py_slice tokens i (i + sz)))
               \<le> length (decode tk (py_slice tokens 0 i)) + length (decode tk (py_slice tokens i (i + sz)))"
    using ok by (simp add: decode_lengths_ok_def)
  finally show ?thesis .
qed

lemma token_loop_no_gaps:
  assumes ok: "decode_lengths_ok tk" and ov: "0 \<le> ov" "ov < sz"
  shows "\<exists>cs. token_loop tk tokens sz ov 0 0 [] = Some cs \<and> no_gaps cs"
proof -
  let ?I = "\<lambda>(i::int) (idx::int) cs.
     no_gaps cs \<and> (cs \<noteq> [] \<longrightarrow> int (length (decode tk (py_slice tokens 0 i))) \<le> end_char (last cs))"
  have "\<exists>cs j n. token_loop tk tokens sz ov 0 0 [] = Some cs \<and> ?I j n cs
      \<and> int (length tokens) \<le> j"
  proof (rule token_loop_rule[where I = ?I, OF ov(2)])
    fix i idx chunks
    assume a: "0 \<le> i" "i < int (length tokens)" "?I i idx chunks"
    let ?c = "token_chunk tk tokens sz i idx"
    have "py_slice tokens i (i + sz) \<noteq> []"
      using py_slice_window_nonempty[OF a(1,2)] ov by simp
    then have "decode tk (py_slice tokens i (i + sz)) \<noteq> []"
      using ok by (simp add: decode_lengths_ok_def)
    then have pos: "start_char ?c < end_char ?c"
      by (simp add: token_chunk_def)
    have ng: "no_gaps (chunks @ [?c])"
      using a(3) pos by (intro no_gaps_snoc) (auto simp: token_chunk_def)
    have "int (length (decode tk (py_slice tokens 0 (i + (sz - ov))))) \<le> end_char ?c"
      using decode_prefix_bound[OF ok a(1), of "sz - ov" sz tokens] ov
      by (simp add: token_chunk_def)
    with ng show "?I (i + (sz - ov)) (idx + 1) (chunks @ [?c])" by simp
  qed (simp_all add: no_gaps_def)
  then show ?thesis by blast
qed

text \<open>
  A non-empty chunk list without gaps contains every position from the start of its
  first chunk to the end of its last.
\<close>

lemma no_gaps_Cons:
  assumes "no_gaps (c # cs)"
  shows "no_gaps cs" and "cs \<noteq> [] \<Longrightarrow> start_char (hd cs) \<le> end_char c"
    and "start_char c < end_char c"
proof -
  show "no_gaps cs"
    unfolding no_gaps_def
  proof (intro conjI allI impI)
    fix k assume "Suc k < length cs"
    with assms show "start_char (cs ! Suc k) \<le> end_char (cs ! k)"
      by (auto simp: no_gaps_def dest: spec[of _ "Suc k"])
  next
    fix k assume "k < length cs"
    with assms show "start_char (cs ! k) < end_char (cs ! k)"
      by (auto simp: no_gaps_def dest: spec[of _ "Suc k"])
  qed
  show "start_char (hd cs) \<le> end_char c" if "cs \<noteq> []"
    using assms that by (cases cs) (auto simp: no_gaps_def dest: spec[of _ 0])
  show "start_char c < end_char c"
    using assms by (auto simp: no_gaps_def dest: spec[of _ 0])
qed

lemma no_gaps_covers:
  "no_gaps cs \<Longrightarrow> cs \<noteq> [] \<Longrightarrow> start_char (hd cs) \<le> p \<Longrightarrow> p < end_char (last cs) \<Longrightarrow>
   \<exists>k<length cs. start_char (cs ! k) \<le> p \<and> p < end_char (cs ! k)"
proof (induction cs)
  case Nil
  then show ?case by simp
next
  case (Cons c cs)
  show ?case
  proof (cases "p < end_char c")
    case True
    with Cons.prems(3) show ?thesis by (intro exI[of _ 0]) simp
  next
    case False
    with Cons.prems(4) have ne: "cs \<noteq> []" by auto
    from no_gaps_Cons(2)[OF Cons.prems(1) ne] False have "start_char (hd cs) \<le> p" by simp
    moreover from Cons.prems(4) ne have "p < end_char (last cs)" by simp
    ultimately obtain k where "k < length cs" "start_char (cs ! k) \<le> p" "p < end_char (cs ! k)"
      using Cons.IH[OF no_gaps_Cons(1)[OF Cons.prems(1)] ne] by auto
    then show ?thesis by (intro exI[of _ "Suc k"]) simp
  qed
qed

lemma char_loop_ends:
  assumes "txt \<noteq> []"
  shows "char_loop txt 0 0 [] \<noteq> [] \<and> start_char (hd (char_loop txt 0 0 [])) = 0
         \<and> end_char (last (char_loop txt 0 0 [])) = int (length txt)"
proof -
  let ?I = "\<lambda>(i::int) (idx::int) (cs::chunk list).
     (cs = [] \<longrightarrow> i = 0)
     \<and> (cs \<noteq> [] \<longrightarrow> start_char (hd cs) = 0
           \<and> end_char (last cs) = min (i + 500) (int (length txt)))"
  have "\<exists>j n. ?I j n (char_loop txt 0 0 []) \<and> int (length txt) \<le> j"
  proof (rule char_loop_rule[where I = ?I])
    fix i idx chunks
    assume "0 \<le> i" "i < int (length txt)" "?I i idx chunks"
    then show "?I (i + 3500) (idx + 1) (chunks @ [char_chunk txt i idx])"
      by (cases chunks) (auto simp: char_chunk_def CHUNK_SIZE_CHARS_def)
  qed simp_all
  then obtain j and n :: int where "?I j n (char_loop txt 0 0 [])" "int (length txt) \<le> j" by blast
  with assms show ?thesis by (cases "char_loop txt 0 0 [] = []") auto
qed

lemma token_loop_ends:
  assumes ok: "decode_lengths_ok tk" and ov: "0 \<le> ov" "ov < sz" and ne: "tokens \<noteq> []"
  shows "\<exists>cs. token_loop tk tokens sz ov 0 0 [] = Some cs \<and> cs \<noteq> []
           \<and> start_char (hd cs) = int (length (decode tk []))
           \<and> int (length (decode tk tokens)) \<le> end_char (last cs)"
proof -
  let ?I = "\<lambda>(i::int) (idx::int) (cs::chunk list).
     (cs = [] \<longrightarrow> i = 0)
     \<and> (cs \<noteq> [] \<longrightarrow> start_char (hd cs) = int (length (decode tk []))
           \<and> int (length (decode tk (py_slice tokens 0 (i + ov)))) \<le> end_char (last cs))"
  have "\<exists>cs j n. token_loop tk tokens sz ov 0 0 [] = Some cs \<and> ?I j n cs
      \<and> int (length tokens) \<le> j"
  proof (rule token_loop_rule[where I = ?I, OF ov(2)])
    fix i idx chunks
    assume a: "0 \<le> i" "i < int (length tokens)" "?I i idx chunks"
    let ?c = "token_chunk tk tokens sz i idx"
    have "int (length (decode tk (py_slice tokens 0 (i + sz)))) \<le> end_char ?c"
      using decode_prefix_bound[OF ok a(1), of sz sz tokens] ov
      by (simp add: token_chunk_def)
    moreover have "chunks = [] \<Longrightarrow> start_char ?c = int (length (decode tk []))"
      using a(3) by (simp add: token_chunk_def py_slice_prefix)
    ultimately show "?I (i + (sz - ov)) (idx + 1) (chunks @ [?c])"
      using a(3) by (cases chunks) auto
  qed simp_all
  then obtain cs j and n :: int where cs: "token_loop tk tokens sz ov 0 0 [] = Some cs" "?I j n cs"
      "int (length tokens) \<le> j" by blast
  from cs(2,3) ne have "cs \<noteq> []" by auto
  moreover from cs(3) ov have "py_slice tokens 0 (j + ov) = tokens"
    by (simp add: py_slice_whole)
  ultimately show ?thesis using cs by auto
qed

lemma strip_Nil [simp]: "strip [] = []"
  by (simp add: strip_def)

lemma chunk_text_blank: "strip txt = [] \<Longrightarrow> chunk_text tk txt chunk_size overlap = Some []"
  by (simp add: chunk_text_def)

lemma chunk_text_tokens:
  "strip txt \<noteq> [] \<Longrightarrow> encode tk txt = Some tokens \<Longrightarrow>
   chunk_text tk txt chunk_size overlap = token_loop tk tokens chunk_size overlap 0 0 []"
  by (auto simp: chunk_text_def)

lemma chunk_text_chars:
  "strip txt \<noteq> [] \<Longrightarrow> encode tk txt = None \<Longrightarrow>
   chunk_text tk txt chunk_size overlap = Some (char_loop txt 0 0 [])"
  by (auto simp: chunk_text_def)

lemma chunk_text_returns:
  assumes "overlap < chunk_size"
  shows "\<exists>cs. chunk_text tk txt chunk_size overlap = Some cs"
proof (cases "strip txt = []")
  case True
  then show ?thesis by (simp add: chunk_text_blank)
next
  case False
  show ?thesis
  proof (cases "encode tk txt")
    case None
    with False show ?thesis by (simp add: chunk_text_chars)
  next
    case (Some tokens)
    with False token_loop_offsets[OF assms, of tk tokens] show ?thesis
      by (auto simp: chunk_text_tokens)
  qed
qed

lemma chunk_text_offsets_ok:
  assumes "chunk_text tk txt chunk_size overlap = Some cs"
  shows "offsets_ok cs"
proof (cases "strip txt = []")
  case True
  with assms show ?thesis by (simp add: chunk_text_blank offsets_ok_def)
next
  case False
  show ?thesis
  proof (cases "encode tk txt")
    case None
    with False assms char_loop_offsets[of "txt"] show ?thesis
      by (simp add: chunk_text_chars)
  next
    case (Some tokens)
    with False assms have run: "token_loop tk tokens chunk_size overlap 0 0 [] = Some cs"
      by (simp add: chunk_text_tokens)
    show ?thesis
    proof (cases "overlap < chunk_size")
      case True
      from token_loop_offsets[OF True, of tk tokens] run show ?thesis by auto
    next
      case False
      with run token_loop_stalls[of tokens chunk_size overlap 0 tk 0 "[]"]
      have "tokens = []" by (cases "tokens = []") auto
      with run have "cs = []" by (subst (asm) token_loop_step) simp
      then show ?thesis by (simp add: offsets_ok_def)
    qed
  qed
qed

section \<open>Claims about the chunker\<close>

lemma chunk_text_eight_chars:
  "chunk_text char_tokenizer ''abcdefgh'' 3 1 = Some
    [\<lparr>text_of = ''abc'', chunk_index = 0, start_char = 0, end_char = 3\<rparr>,
     \<lparr>text_of = ''cde'', chunk_index = 1, start_char = 2, end_char = 5\<rparr>,
     \<lparr>text_of = ''efg'', chunk_index = 2, start_char = 4, end_char = 7\<rparr>,
     \<lparr>text_of = ''gh'', chunk_index = 3, start_char = 6, end_char = 8\<rparr>]"
  by code_simp

lemma strip_replicate_a: "strip (replicate 3600 CHR ''a'') \<noteq> []"
  by (simp add: strip_def py_isspace_def)

lemma chunk_text_fallback_3600:
  "chunk_text no_tokenizer (replicate 3600 CHR ''a'') chunk_size overlap = Some
    [\<lparr>text_of = replicate 3600 CHR ''a'', chunk_index = 0, start_char = 0, end_char = 3600\<rparr>,
     \<lparr>text_of = replicate 100 CHR ''a'', chunk_index = 1, start_char = 3500, end_char = 3600\<rparr>]"
  by (simp add: chunk_text_def strip_replicate_a no_tokenizer_def char_loop_step char_chunk_def
      CHUNK_SIZE_CHARS_def py_slice_nonneg)

text \<open>
  C1. The claim is that \<^verbatim>\<open>chunk_text\<close> terminates for every text and every window size and
  overlap. The code does not: when the overlap is not smaller than the window size, and
  the text has a character that is not whitespace and a token, the call never returns.
  The line after the comment \<^verbatim>\<open># Safety check\<close> resets a window start of zero to the
  step, which is zero or negative itself.
\<close>

theorem chunk_text_stalls:
  assumes "strip txt \<noteq> []" "encode tk txt = Some tokens" "tokens \<noteq> []" "chunk_size \<le> overlap"
  shows "chunk_text tk txt chunk_size overlap = None"
  using assms token_loop_stalls[of tokens chunk_size overlap 0 tk 0 "[]"]
  by (simp add: chunk_text_tokens)

theorem chunk_text_stalls_witness:
  "strip ''a'' \<noteq> [] \<and> encode char_tokenizer ''a'' = Some [97] \<and> [97::nat] \<noteq> []
   \<and> (1::int) \<le> 1 \<and> chunk_text char_tokenizer ''a'' 1 1 = None"
proof -
  have h1: "strip ''a'' \<noteq> []" by (simp add: strip_def py_isspace_def)
  have h2: "encode char_tokenizer ''a'' = Some [97]" by (simp add: char_tokenizer_def)
  from chunk_text_stalls[OF h1 h2, of 1 1] h1 h2 show ?thesis by simp
qed

lemma tokenizer_ok_char_tokenizer: "tokenizer_ok char_tokenizer"
  by (simp add: tokenizer_ok_def decode_lengths_ok_def char_tokenizer_def comp_def)

lemma tokenizer_ok_no_tokenizer: "tokenizer_ok no_tokenizer"
  by (simp add: tokenizer_ok_def decode_lengths_ok_def no_tokenizer_def)

text \<open>
  C6. For every text, when the overlap is not negative and smaller than the window size
  (as the defaults 1000 and 150 are) and the tokenizer behaves, \<^verbatim>\<open>chunk_text\<close> returns,
  every chunk after the first starts no later than its predecessor ends, and every chunk
  starts before it ends. When the text has a character that is not whitespace there is a
  chunk, the first chunk starts at 0, the last ends at or after the end of the text, and
  so every position of the text lies in a chunk. (A text of whitespace only gets no
  chunk.) The fallback on characters needs nothing of the tokenizer.
\<close>

theorem chunk_text_no_gaps:
  assumes "tokenizer_ok tk" "0 \<le> overlap" "overlap < chunk_size"
  shows "\<exists>cs. chunk_text tk txt chunk_size overlap = Some cs
           \<and> (\<forall>k. Suc k < length cs \<longrightarrow> start_char (cs ! Suc k) \<le> end_char (cs ! k))
           \<and> (\<forall>k<length cs. start_char (cs ! k) < end_char (cs ! k))
           \<and> (strip txt \<noteq> [] \<longrightarrow>
                 cs \<noteq> [] \<and> start_char (hd cs) = 0 \<and> int (length txt) \<le> end_char (last cs)
                 \<and> (\<forall>p. 0 \<le> p \<and> p < int (length txt) \<longrightarrow>
                        (\<exists>k<length cs. start_char (cs ! k) \<le> p \<and> p < end_char (cs ! k))))"
proof -
  have covers: "\<forall>p. 0 \<le> p \<and> p < int (length txt) \<longrightarrow>
      (\<exists>k<length cs. start_char (cs ! k) \<le> p \<and> p < end_char (cs ! k))"
    if "no_gaps cs" "cs \<noteq> []" "start_char (hd cs) = 0" "int (length txt) \<le> end_char (last cs)"
    for cs
    using no_gaps_covers[OF that(1,2)] that(3,4) by auto
  show ?thesis
  proof (cases "strip txt = []")
    case True
    then show ?thesis by (simp add: chunk_text_blank)
  next
    case False
    then have ne: "txt \<noteq> []" by auto
    show ?thesis
    proof (cases "encode tk txt")
      case None
      let ?cs = "char_loop txt 0 0 []"
      from char_loop_ends[OF ne] have e: "?cs \<noteq> []" "start_char (hd ?cs) = 0"
        "int (length txt) \<le> end_char (last ?cs)" by simp_all
      from covers[OF char_loop_no_gaps e] e char_loop_no_gaps[of "txt"] False None
      show ?thesis by (simp add: chunk_text_chars no_gaps_def)
    next
      case (Some tokens)
      from assms(1) have ok: "decode_lengths_ok tk" and d0: "decode tk [] = []"
        and rt: "decode tk tokens = txt"
        using Some by (auto simp: tokenizer_ok_def)
      from rt d0 ne have tne: "tokens \<noteq> []" by auto
      from token_loop_no_gaps[OF ok assms(2,3), of tokens] obtain cs
        where cs: "token_loop tk tokens chunk_size overlap 0 0 [] = Some cs" "no_gaps cs" by blast
      from token_loop_ends[OF ok assms(2,3) tne] cs(1) d0 rt
      have e: "cs \<noteq> []" "start_char (hd cs) = 0" "int (length txt) \<le> end_char (last cs)"
        by auto
      from covers[OF cs(2) e] e cs False Some show ?thesis
        by (simp add: chunk_text_tokens no_gaps_def)
    qed
  qed
qed

theorem chunk_text_no_gaps_witness:
  "tokenizer_ok char_tokenizer \<and> (0::int) \<le> 1 \<and> (1::int) < 3 \<and> strip ''abcdefgh'' \<noteq> []
   \<and> (\<exists>cs. chunk_text char_tokenizer ''abcdefgh'' 3 1 = Some cs \<and> length cs = 4
          \<and> start_char (hd cs) = 0 \<and> int (length ''abcdefgh'') \<le> end_char (last cs)
          \<and> (\<forall>k. Suc k < length cs \<longrightarrow> start_char (cs ! Suc k) \<le> end_char (cs ! k))
          \<and> (\<forall>k<length cs. start_char (cs ! k) < end_char (cs ! k))
          \<and> (\<forall>p. 0 \<le> p \<and> p < int (length ''abcdefgh'') \<longrightarrow>
                 (\<exists>k<length cs. start_char (cs ! k) \<le> p \<and> p < end_char (cs ! k))))
   \<and> tokenizer_ok no_tokenizer \<and> (0::int) \<le> 150 \<and> (150::int) < 1000
   \<and> strip (replicate 3600 CHR ''a'') \<noteq> []
   \<and> (\<exists>cs. chunk_text no_tokenizer (replicate 3600 CHR ''a'') 1000 150 = Some cs
          \<and> length cs = 2
          \<and> start_char (hd cs) = 0
          \<and> int (length (replicate 3600 CHR ''a'')) \<le> end_char (last cs)
          \<and> (\<forall>k. Suc k < length cs \<longrightarrow> start_char (cs ! Suc k) \<le> end_char (cs ! k))
          \<and> (\<forall>k<length cs. start_char (cs ! k) < end_char (cs ! k))
          \<and> (\<forall>p. 0 \<le> p \<and> p < int (length (replicate 3600 CHR ''a'')) \<longrightarrow>
                 (\<exists>k<length cs. start_char (cs ! k) \<le> p \<and> p < end_char (cs ! k))))"
proof -
  have s1: "strip ''abcdefgh'' \<noteq> []" by (simp add: strip_def py_isspace_def)
  from chunk_text_no_gaps[OF tokenizer_ok_char_tokenizer, of 1 3 "''abcdefgh''"] s1
  obtain cs where cs: "chunk_text char_tokenizer ''abcdefgh'' 3 1 = Some cs"
      "start_char (hd cs) = 0" "int (length ''abcdefgh'') \<le> end_char (last cs)"
      "\<forall>k. Suc k < length cs \<longrightarrow> start_char (cs ! Suc k) \<le> end_char (cs ! k)"
      "\<forall>k<length cs. start_char (cs ! k) < end_char (cs ! k)"
      "\<forall>p. 0 \<le> p \<and> p < int (length ''abcdefgh'') \<longrightarrow>
          (\<exists>k<length cs. start_char (cs ! k) \<le> p \<and> p < end_char (cs ! k))"
    by auto
  from cs(1) have l1: "length cs = 4" by (auto simp: chunk_text_eight_chars)
  from chunk_text_no_gaps[OF tokenizer_ok_no_tokenizer, of 150 1000 "replicate 3600 CHR ''a''"]
    strip_replicate_a
  obtain ds where ds: "chunk_text no_tokenizer (replicate 3600 CHR ''a'') 1000 150 = Some ds"
      "start_char (hd ds) = 0" "int (length (replicate 3600 CHR ''a'')) \<le> end_char (last ds)"
      "\<forall>k. Suc k < length ds \<longrightarrow> start_char (ds ! Suc k) \<le> end_char (ds ! k)"
      "\<forall>k<length ds. start_char (ds ! k) < end_char (ds ! k)"
      "\<forall>p. 0 \<le> p \<and> p < int (length (replicate 3600 CHR ''a'')) \<longrightarrow>
          (\<exists>k<length ds. start_char (ds ! k) \<le> p \<and> p < end_char (ds ! k))"
    by auto
  from ds(1) have l2: "length ds = 2" by (auto simp: chunk_text_fallback_3600)
  from cs l1 have A: "\<exists>cs. chunk_text char_tokenizer ''abcdefgh'' 3 1 = Some cs \<and> length cs = 4
          \<and> start_char (hd cs) = 0 \<and> int (length ''abcdefgh'') \<le> end_char (last cs)
          \<and> (\<forall>k. Suc k < length cs \<longrightarrow> start_char (cs ! Suc k) \<le> end_char (cs ! k))
          \<and> (\<forall>k<length cs. start_char (cs ! k) < end_char (cs ! k))
          \<and> (\<forall>p. 0 \<le> p \<and> p < int (length ''abcdefgh'') \<longrightarrow>
                 (\<exists>k<length cs. start_char (cs ! k) \<le> p \<and> p < end_char (cs ! k)))"
    by blast
  from ds l2 have B: "\<exists>cs. chunk_text no_tokenizer (replicate 3600 CHR ''a'') 1000 150 = Some cs
          \<and> length cs = 2
          \<and> start_char (hd cs) = 0
          \<and> int (length (replicate 3600 CHR ''a'')) \<le> end_char (last cs)
          \<and> (\<forall>k. Suc k < length cs \<longrightarrow> start_char (cs ! Suc k) \<le> end_char (cs ! k))
          \<and> (\<forall>k<length cs. start_char (cs ! k) < end_char (cs ! k))
          \<and> (\<forall>p. 0 \<le> p \<and> p < int (length (replicate 3600 CHR ''a'')) \<longrightarrow>
                 (\<exists>k<length cs. start_char (cs ! k) \<le> p \<and> p < end_char (cs ! k)))"
    by blast
  from A B s1 strip_replicate_a tokenizer_ok_char_tokenizer tokenizer_ok_no_tokenizer
  show ?thesis by simp
qed

text \<open>
  C7 as the code has it. The empty string, and any text of whitespace only, gives no
  chunk. A text with a character that is not whitespace gives exactly one chunk when its
  sequence fits the step as well as the window: in token mode a non-empty token sequence
  no longer than \<open>chunk_size\<close> and than \<open>chunk_size - overlap\<close>, whose decoding is the
  chunk's text; in the fallback at most 3500 characters, and the chunk's text is the
  whole input.
\<close>

theorem chunk_text_single_chunk:
  "chunk_text tk [] chunk_size overlap = Some []
   \<and> (strip txt = [] \<longrightarrow> chunk_text tk txt chunk_size overlap = Some [])
   \<and> (strip txt \<noteq> [] \<longrightarrow> encode tk txt = None \<longrightarrow>
        int (length txt) \<le> CHUNK_SIZE_CHARS - CHUNK_OVERLAP_CHARS \<longrightarrow>
        chunk_text tk txt chunk_size overlap =
          Some [\<lparr>text_of = txt, chunk_index = 0, start_char = 0, end_char = int (length txt)\<rparr>])
   \<and> (strip txt \<noteq> [] \<longrightarrow> encode tk txt = Some tokens \<longrightarrow> tokens \<noteq> [] \<longrightarrow>
        int (length tokens) \<le> chunk_size \<longrightarrow> int (length tokens) \<le> chunk_size - overlap \<longrightarrow>
        chunk_text tk txt chunk_size overlap =
          Some [\<lparr>text_of = decode tk tokens, chunk_index = 0,
                 start_char = int (length (decode tk [])),
                 end_char = int (length (decode tk [])) + int (length (decode tk tokens))\<rparr>])"
proof (intro conjI impI)
  show "chunk_text tk [] chunk_size overlap = Some []"
    by (simp add: chunk_text_def)
next
  assume "strip txt = []"
  then show "chunk_text tk txt chunk_size overlap = Some []"
    by (rule chunk_text_blank)
next
  assume a: "strip txt \<noteq> []" "encode tk txt = None"
    "int (length txt) \<le> CHUNK_SIZE_CHARS - CHUNK_OVERLAP_CHARS"
  from a(1) have "txt \<noteq> []" by auto
  then have "0 < int (length txt)" by simp
  with a show "chunk_text tk txt chunk_size overlap =
      Some [\<lparr>text_of = txt, chunk_index = 0, start_char = 0, end_char = int (length txt)\<rparr>]"
    by (simp add: chunk_text_chars char_loop_step char_chunk_def py_slice_whole
        CHUNK_SIZE_CHARS_def CHUNK_OVERLAP_CHARS_def)
next
  assume a: "strip txt \<noteq> []" "encode tk txt = Some tokens" "tokens \<noteq> []"
    "int (length tokens) \<le> chunk_size" "int (length tokens) \<le> chunk_size - overlap"
  from a(3) have "0 < int (length tokens)" by simp
  with a show "chunk_text tk txt chunk_size overlap =
      Some [\<lparr>text_of = decode tk tokens, chunk_index = 0,
             start_char = int (length (decode tk [])),
             end_char = int (length (decode tk [])) + int (length (decode tk tokens))\<rparr>]"
    by (simp add: chunk_text_tokens token_loop_step token_chunk_def py_slice_whole py_slice_prefix)
qed

theorem chunk_text_single_chunk_witness:
  "strip ''  '' = [] \<and> chunk_text no_tokenizer ''  '' 1000 150 = Some []
   \<and> strip ''hello'' \<noteq> [] \<and> encode no_tokenizer ''hello'' = None
   \<and> int (length ''hello'') \<le> CHUNK_SIZE_CHARS - CHUNK_OVERLAP_CHARS
   \<and> chunk_text no_tokenizer ''hello'' 1000 150 =
       Some [\<lparr>text_of = ''hello'', chunk_index = 0, start_char = 0, end_char = 5\<rparr>]
   \<and> encode char_tokenizer ''hello'' = Some [104, 101, 108, 108, 111]
   \<and> chunk_text char_tokenizer ''hello'' 1000 150 =
       Some [\<lparr>text_of = ''hello'', chunk_index = 0, start_char = 0, end_char = 5\<rparr>]"
proof -
  have b: "strip ''  '' = []" by (simp add: strip_def py_isspace_def)
  have s: "strip ''hello'' \<noteq> []" by (simp add: strip_def py_isspace_def)
  have n: "encode no_tokenizer ''hello'' = None" by (simp add: no_tokenizer_def)
  have l: "int (length ''hello'') \<le> CHUNK_SIZE_CHARS - CHUNK_OVERLAP_CHARS"
    by (simp add: CHUNK_SIZE_CHARS_def CHUNK_OVERLAP_CHARS_def)
  have e: "encode char_tokenizer ''hello'' = Some [104, 101, 108, 108, 111]"
    by (simp add: char_tokenizer_def)
  have d: "decode char_tokenizer [104, 101, 108, 108, 111] = ''hello''"
    by code_simp
  have d0: "decode char_tokenizer [] = []"
    by (simp add: char_tokenizer_def)
  note t1 = chunk_text_single_chunk[of no_tokenizer 1000 150 "''  ''" "[]"]
  note t2 = chunk_text_single_chunk[of no_tokenizer 1000 150 "''hello''" "[]"]
  note t3 = chunk_text_single_chunk[of char_tokenizer 1000 150 "''hello''" "[104, 101, 108, 108, 111]"]
  from t1 b have r1: "chunk_text no_tokenizer ''  '' 1000 150 = Some []" by blast
  from t2 s n l have r2: "chunk_text no_tokenizer ''hello'' 1000 150 =
       Some [\<lparr>text_of = ''hello'', chunk_index = 0, start_char = 0, end_char = 5\<rparr>]"
    by simp
  from t3 s e d d0 have r3: "chunk_text char_tokenizer ''hello'' 1000 150 =
       Some [\<lparr>text_of = ''hello'', chunk_index = 0, start_char = 0, end_char = 5\<rparr>]"
    by simp
  from b s n l e r1 r2 r3 show ?thesis by blast
qed

text \<open>
  C7 as the spec states it fails twice. A text of one space is not empty and is shorter
  than the window, and gives no chunk. With the tokenizer unavailable, a text of 3600
  characters is shorter than a window of 4000 and gives two chunks: the whole text, and
  its last 100 characters again.
\<close>

theorem chunk_text_short_text_counterexample:
  "chunk_text no_tokenizer '' '' 1000 150 = Some []
   \<and> chunk_text no_tokenizer (replicate 3600 CHR ''a'') 4000 500 = Some
       [\<lparr>text_of = replicate 3600 CHR ''a'', chunk_index = 0, start_char = 0, end_char = 3600\<rparr>,
        \<lparr>text_of = replicate 100 CHR ''a'', chunk_index = 1, start_char = 3500, end_char = 3600\<rparr>]"
  by (simp add: chunk_text_fallback_3600) (simp add: chunk_text_def strip_def py_isspace_def)

text \<open>
  C10. Whenever the overlap is smaller than the window size \<^verbatim>\<open>chunk_text\<close> returns, and in
  every list it returns, from tokens or from characters, each chunk ends at its start
  plus the length of its text and carries its position in the list as \<open>chunk_index\<close>.
\<close>

theorem chunk_text_offsets:
  "(overlap < chunk_size \<longrightarrow> (\<exists>cs. chunk_text tk txt chunk_size overlap = Some cs))
   \<and> (chunk_text tk txt chunk_size overlap = Some cs \<longrightarrow> k < length cs \<longrightarrow>
        end_char (cs ! k) = start_char (cs ! k) + int (length (text_of (cs ! k)))
        \<and> chunk_index (cs ! k) = int k)"
  using chunk_text_returns[of overlap chunk_size tk "txt"]
    chunk_text_offsets_ok[of tk "txt" chunk_size overlap cs]
  by (auto simp: offsets_ok_def)

theorem chunk_text_offsets_witness:
  "(1::int) < 3 \<and> (\<exists>cs. chunk_text char_tokenizer ''abcdefgh'' 3 1 = Some cs \<and> 3 < length cs
      \<and> end_char (cs ! 3) = start_char (cs ! 3) + int (length (text_of (cs ! 3)))
      \<and> chunk_index (cs ! 3) = 3)
   \<and> (\<exists>cs. chunk_text no_tokenizer (replicate 3600 CHR ''a'') 4000 500 = Some cs \<and> 1 < length cs
      \<and> end_char (cs ! 1) = start_char (cs ! 1) + int (length (text_of (cs ! 1)))
      \<and> chunk_index (cs ! 1) = 1)"
proof -
  let ?a = "[\<lparr>text_of = ''abc'', chunk_index = 0, start_char = 0, end_char = 3\<rparr>,
     \<lparr>text_of = ''cde'', chunk_index = 1, start_char = 2, end_char = 5\<rparr>,
     \<lparr>text_of = ''efg'', chunk_index = 2, start_char = 4, end_char = 7\<rparr>,
     \<lparr>text_of = ''gh'', chunk_index = 3, start_char = 6, end_char = 8\<rparr>]"
  let ?b = "[\<lparr>text_of = replicate 3600 CHR ''a'', chunk_index = 0, start_char = 0, end_char = 3600\<rparr>,
     \<lparr>text_of = replicate 100 CHR ''a'', chunk_index = 1, start_char = 3500, end_char = 3600\<rparr>]"
  from chunk_text_offsets[of 1 3 char_tokenizer "''abcdefgh''" ?a 3]
  have "end_char (?a ! 3) = start_char (?a ! 3) + int (length (text_of (?a ! 3)))
      \<and> chunk_index (?a ! 3) = 3"
    by (simp add: chunk_text_eight_chars)
  moreover from chunk_text_offsets[of 500 4000 no_tokenizer "replicate 3600 CHR ''a''" ?b 1]
  have "end_char (?b ! 1) = start_char (?b ! 1) + int (length (text_of (?b ! 1)))
      \<and> chunk_index (?b ! 1) = 1"
    by (simp add: chunk_text_fallback_3600)
  ultimately show ?thesis
    by (simp add: chunk_text_eight_chars chunk_text_fallback_3600)
qed

section \<open>Cosine similarity\<close>

lemma cosine_similarity_defined:
  "length vec1 = length vec2 \<Longrightarrow> \<exists>s. cosine_similarity vec1 vec2 = Inr s"
  by (simp add: cosine_similarity_def np_dot_def np_divide_def Let_def)

lemma cosine_similarity_error:
  "cosine_similarity vec1 vec2 = Inl e \<Longrightarrow> e = ValueError \<and> length vec1 \<noteq> length vec2"
  by (auto simp: cosine_similarity_def np_dot_def np_divide_def Let_def split: if_splits)

section \<open>Scoring and ranking\<close>

lemma similarities_defined:
  "\<forall>emb\<in>set embs. length emb = length q \<Longrightarrow> \<exists>sims. similarities q embs i = Inr sims"
proof (induction embs arbitrary: i)
  case Nil
  show ?case by simp
next
  case (Cons emb embs)
  from Cons.prems obtain s where "cosine_similarity q emb = Inr s"
    using cosine_similarity_defined[of q emb] by auto
  moreover from Cons.IH[of "Suc i"] Cons.prems obtain rest
    where "similarities q embs (Suc i) = Inr rest" by auto
  ultimately show ?case by simp
qed

lemma similarities_entries:
  "similarities q embs i = Inr sims \<Longrightarrow>
   length sims = length embs \<and>
   (\<forall>k<length embs. fst (sims ! k) = i + k \<and> cosine_similarity q (embs ! k) = Inr (snd (sims ! k)))"
proof (induction embs arbitrary: i sims)
  case Nil
  then show ?case by simp
next
  case (Cons emb embs)
  from Cons.prems obtain s rest where s: "cosine_similarity q emb = Inr s"
    and rest: "similarities q embs (Suc i) = Inr rest" and sims: "sims = (i, s) # rest"
    by (auto split: sum.splits)
  from Cons.IH[OF rest] s sims show ?case
    by (auto simp: nth_Cons split: nat.splits)
qed




lemma set_rank [simp]: "set (rank sims) = set sims"
  by (simp add: rank_def)

lemma length_rank [simp]: "length (rank sims) = length sims"
  by (simp add: rank_def)


section \<open>Building the results\<close>

lemma collect_results_defined:
  "\<forall>p\<in>set picked. fst p < length chunks \<Longrightarrow>
   collect_results chunks picked = Inr (map (\<lambda>(idx, score). with_score (chunks ! idx) score) picked)"
  by (induction picked) auto


lemma search_empty: "self_embeddings self = [] \<Longrightarrow> search self q top_k = Inr []"
  by (simp add: search_def)

lemma similarities_positions:
  assumes "similarities q embs 0 = Inr sims" "p \<in> set sims"
  shows "fst p < length embs \<and> cosine_similarity q (embs ! fst p) = Inr (snd p)"
proof -
  from assms(2) obtain k where k: "k < length sims" "p = sims ! k"
    by (auto simp: in_set_conv_nth)
  with similarities_entries[OF assms(1)] show ?thesis by auto
qed

section \<open>Claims about the vector store\<close>

lemmas store_eval =
  search_def cosine_similarity_def np_dot_def np_norm_def np_divide_def rank_def
  py_slice_def slice_bound_def with_score_def dict_set_def dict_get_def
  apple_store_def apple_chunks_def apple_vectors_def



lemma apple_search_neg:
  "search apple_store [1, 0] (- 1) =
     Inr [[(''text'', PyStr ''apple pie''), (''chunk_index'', PyInt 0), (''score'', PyFloat 1)],
          [(''text'', PyStr ''apple pie''), (''chunk_index'', PyInt 2), (''score'', PyFloat 1)]]"
  by (simp add: store_eval)

lemma utf8_length_Nil [simp]: "utf8_length [] = 0"
  by (simp add: utf8_length_def)

lemma utf8_length_Cons [simp]:
  "utf8_length (c # s) = (if (of_char c :: nat) < 128 then 1 else 2) + utf8_length s"
  by (simp add: utf8_length_def)

lemma utf8_length_append [simp]: "utf8_length (a @ b) = utf8_length a + utf8_length b"
  by (simp add: utf8_length_def)

lemma utf8_length_replicate_a [simp]: "utf8_length (replicate n CHR ''a'') = n"
  by (induction n) simp_all

lemma doc_reachable: "storage_file ''doc'' \<notin> unreachable empty_world"
  by (simp add: empty_world_def refused_def storage_file_def STORAGE_DIR_def entry_name_def
      NAME_MAX_def PATH_MAX_def)

lemma long_name_unreachable:
  "storage_file (replicate 300 CHR ''a'') \<in> unreachable empty_world"
proof -
  have "entry_name (storage_file (replicate 300 CHR ''a'')) = ''doc_'' @ replicate 300 CHR ''a'' @ ''.json''"
    by (simp add: entry_name_def storage_file_def STORAGE_DIR_def)
  then have "NAME_MAX < utf8_length (entry_name (storage_file (replicate 300 CHR ''a'')))"
    by (simp add: NAME_MAX_def)
  then show ?thesis by (simp add: empty_world_def refused_def)
qed

lemma apple_ingest:
  "store_document ''doc'' apple_chunks apple_vectors empty_world =
     (Inr 3, empty_world\<lparr>stores := [''doc'' \<mapsto> apple_store],
              files := [storage_file ''doc'' \<mapsto>
                 Json \<lparr>json_doc_id = Some ''doc'', json_embeddings = Some apple_vectors,
                       json_chunks = Some apple_chunks\<rparr>]\<rparr>)"
proof -
  have e: "stores empty_world = Map.empty" "files empty_world = Map.empty"
    "read_only empty_world = {}"
    by (simp_all add: empty_world_def)
  show ?thesis
    using doc_reachable
    by (simp add: store_document_def get_or_create_store_def init_def load_def path_exists_def
        add_def save_def unwritable_def e apple_store_def apple_chunks_def apple_vectors_def Let_def)
qed


lemma search_take:
  assumes par: "length (self_chunks self) = length (self_embeddings self)"
    and sims: "similarities q (self_embeddings self) 0 = Inr sims"
    and k: "0 \<le> top_k"
  shows "search self q top_k =
    Inr (map (\<lambda>(idx, score). with_score (self_chunks self ! idx) score) (take (nat top_k) (rank sims)))"
proof (cases "self_embeddings self = []")
  case True
  with sims show ?thesis by (auto simp: search_empty rank_def)
next
  case False
  have "\<forall>p\<in>set (take (nat top_k) (rank sims)). fst p < length (self_chunks self)"
    using similarities_positions[OF sims] set_take_subset[of "nat top_k" "rank sims"] par
    by auto
  from collect_results_defined[OF this] False sims k show ?thesis
    by (simp add: search_def py_slice_prefix)
qed

text \<open>
  C2 as the code has it. Searching an empty collection gives the empty result for every
  query and every \<open>top_k\<close>. For a collection with as many chunks as vectors, all of the
  query's dimension, the scores are defined; for \<open>top_k\<close> not negative the result is built
  from the first \<open>top_k\<close> entries of the ranking, in its order; with no more vectors than
  \<open>top_k\<close> it is built from all of them; and \<open>top_k = 0\<close> gives the empty result.
\<close>

theorem search_top_k:
  "(self_embeddings self = [] \<longrightarrow> search self q top_k = Inr [])
   \<and> (length (self_chunks self) = length (self_embeddings self)
        \<and> (\<forall>emb\<in>set (self_embeddings self). length emb = length q) \<longrightarrow>
      (\<exists>sims. similarities q (self_embeddings self) 0 = Inr sims
         \<and> (0 \<le> top_k \<longrightarrow> search self q top_k =
              Inr (map (\<lambda>(idx, score). with_score (self_chunks self ! idx) score)
                     (take (nat top_k) (rank sims))))
         \<and> (int (length (self_embeddings self)) \<le> top_k \<longrightarrow> search self q top_k =
              Inr (map (\<lambda>(idx, score). with_score (self_chunks self ! idx) score) (rank sims)))
         \<and> search self q 0 = Inr []))"
proof (intro conjI impI)
  assume "self_embeddings self = []"
  then show "search self q top_k = Inr []" by (rule search_empty)
next
  assume a: "length (self_chunks self) = length (self_embeddings self)
        \<and> (\<forall>emb\<in>set (self_embeddings self). length emb = length q)"
  then obtain sims where sims: "similarities q (self_embeddings self) 0 = Inr sims"
    using similarities_defined[of "self_embeddings self" q 0] by auto
  have len: "length sims = length (self_embeddings self)"
    using similarities_entries[OF sims] by simp
  have "search self q top_k =
      Inr (map (\<lambda>(idx, score). with_score (self_chunks self ! idx) score) (rank sims))"
    if "int (length (self_embeddings self)) \<le> top_k"
    using search_take[of self q sims top_k] a sims that len by simp
  moreover have "search self q 0 = Inr []"
    using search_take[of self q sims 0] a sims by simp
  ultimately show "\<exists>sims. similarities q (self_embeddings self) 0 = Inr sims
         \<and> (0 \<le> top_k \<longrightarrow> search self q top_k =
              Inr (map (\<lambda>(idx, score). with_score (self_chunks self ! idx) score)
                     (take (nat top_k) (rank sims))))
         \<and> (int (length (self_embeddings self)) \<le> top_k \<longrightarrow> search self q top_k =
              Inr (map (\<lambda>(idx, score). with_score (self_chunks self ! idx) score) (rank sims)))
         \<and> search self q 0 = Inr []"
    using search_take[of self q sims top_k] a sims by (intro exI[of _ sims]) simp
qed

lemma apple_ranked:
  assumes "similarities [1, 0] (self_embeddings apple_store) 0 = Inr sims"
  shows "rank sims = [(0, 1), (2, 1), (1, 0)]"
proof -
  have "similarities [1, 0] (self_embeddings apple_store) 0 = Inr [(0, 1), (1, 0), (2, 1)]"
    by (simp add: store_eval)
  with assms have "sims = [(0, 1), (1, 0), (2, 1)]" by simp
  then show ?thesis by (simp add: rank_def)
qed

theorem search_top_k_witness:
  "self_embeddings \<lparr>self_doc_id = ''new'', self_embeddings = [], self_chunks = []\<rparr> = []
   \<and> search \<lparr>self_doc_id = ''new'', self_embeddings = [], self_chunks = []\<rparr> [1, 0] 2 = Inr []
   \<and> length (self_chunks apple_store) = length (self_embeddings apple_store)
   \<and> map length (self_embeddings apple_store) = replicate 3 (length [1, 0 :: real])
   \<and> search apple_store [1, 0] 2 =
       Inr (map (\<lambda>(idx, score). with_score (self_chunks apple_store ! idx) score)
              [(0, 1), (2, 1)])
   \<and> search apple_store [1, 0] 5 =
       Inr (map (\<lambda>(idx, score). with_score (self_chunks apple_store ! idx) score)
              [(0, 1), (2, 1), (1, 0)])
   \<and> search apple_store [1, 0] 0 = Inr []"
proof -
  let ?new = "\<lparr>self_doc_id = ''new'', self_embeddings = [], self_chunks = []\<rparr>"
  let ?mk = "\<lambda>(idx, score). with_score (self_chunks apple_store ! idx) score"
  have wf: "length (self_chunks apple_store) = length (self_embeddings apple_store)
        \<and> (\<forall>emb\<in>set (self_embeddings apple_store). length emb = length [1, 0 :: real])"
    by (simp add: apple_store_def apple_chunks_def apple_vectors_def)
  have n: "int (length (self_embeddings apple_store)) \<le> 5"
    by (simp add: apple_store_def apple_vectors_def)
  from search_top_k[of ?new "[1, 0]" 2]
  have e: "search ?new [1, 0] 2 = Inr []" by simp
  from search_top_k[of apple_store "[1, 0]" 2] wf obtain sims
    where s: "similarities [1, 0] (self_embeddings apple_store) 0 = Inr sims"
      and t: "search apple_store [1, 0] 2 = Inr (map ?mk (take (nat 2) (rank sims)))"
      and zero: "search apple_store [1, 0] 0 = Inr []"
    by auto
  from t have two: "search apple_store [1, 0] 2 = Inr (map ?mk [(0, 1), (2, 1)])"
    by (simp add: apple_ranked[OF s])
  from search_top_k[of apple_store "[1, 0]" 5] wf n obtain sims'
    where s': "similarities [1, 0] (self_embeddings apple_store) 0 = Inr sims'"
      and t': "search apple_store [1, 0] 5 = Inr (map ?mk (rank sims'))"
    by auto
  from t' have five: "search apple_store [1, 0] 5 = Inr (map ?mk [(0, 1), (2, 1), (1, 0)])"
    by (simp add: apple_ranked[OF s'])
  have dims: "map length (self_embeddings apple_store) = replicate 3 (length [1, 0 :: real])"
    by (simp add: apple_store_def apple_vectors_def numeral_3_eq_3)
  from e wf dims two five zero show ?thesis by simp
qed

text \<open>
  C2 as the spec states it fails for a negative \<open>top_k\<close>: \<^verbatim>\<open>similarities[:top_k]\<close> then
  counts from the end, so \<open>top_k = -1\<close> on the three vectors of the scenario gives two
  results, not none.
\<close>

theorem search_negative_top_k_counterexample:
  "search apple_store [1, 0] (- 1) =
     Inr [[(''text'', PyStr ''apple pie''), (''chunk_index'', PyInt 0), (''score'', PyFloat 1)],
          [(''text'', PyStr ''apple pie''), (''chunk_index'', PyInt 2), (''score'', PyFloat 1)]]"
  by (rule apple_search_neg)



text \<open>
  C4. With chunk and vector sequences of unequal lengths, \<^verbatim>\<open>store_document\<close> and \<^verbatim>\<open>add\<close>
  raise ValueError (the spec's ValidationError) and leave the registry, the store object
  and the files as they were.
\<close>

theorem store_document_mismatch:
  "length chunks \<noteq> length embeddings \<Longrightarrow>
   store_document doc_id chunks embeddings w = (Inl ValueError, w)
   \<and> add chunks embeddings self w = (Inl ValueError, self, w)"
  by (simp add: store_document_def add_def)

theorem store_document_mismatch_witness:
  "length [[(''text'', PyStr ''pear'')]] \<noteq> length ([] :: real list list)
   \<and> stores (snd (store_document ''doc'' apple_chunks apple_vectors empty_world)) ''doc''
       = Some apple_store
   \<and> store_document ''doc'' [[(''text'', PyStr ''pear'')]] []
       (snd (store_document ''doc'' apple_chunks apple_vectors empty_world))
     = (Inl ValueError, snd (store_document ''doc'' apple_chunks apple_vectors empty_world))
   \<and> add [[(''text'', PyStr ''pear'')]] [] apple_store
       (snd (store_document ''doc'' apple_chunks apple_vectors empty_world))
     = (Inl ValueError, apple_store,
        snd (store_document ''doc'' apple_chunks apple_vectors empty_world))"
proof -
  have h: "length [[(''text'', PyStr ''pear'')]] \<noteq> length ([] :: real list list)" by simp
  from store_document_mismatch[OF h] h show ?thesis
    by (simp add: apple_ingest)
qed

text \<open>
  C5. When the storage file can be written, saving a store and then constructing a store
  for the same document identifier, which loads the file, gives the same chunks and the
  same vectors.
\<close>

theorem save_load_roundtrip:
  "storage_file (self_doc_id self) \<notin> unwritable w \<Longrightarrow>
   (\<exists>loaded. init (self_doc_id self) (save self w) = Inr loaded
      \<and> self_chunks loaded = self_chunks self
      \<and> self_embeddings loaded = self_embeddings self)"
  by (simp add: init_def load_def path_exists_def save_def unwritable_def)

theorem save_load_roundtrip_witness:
  "storage_file (self_doc_id apple_store) \<notin> unwritable empty_world
   \<and> (\<exists>loaded. init ''doc'' (save apple_store empty_world) = Inr loaded
        \<and> self_chunks loaded = apple_chunks \<and> self_embeddings loaded = apple_vectors)"
proof -
  have "read_only empty_world = {}" by (simp add: empty_world_def)
  with doc_reachable have h: "storage_file (self_doc_id apple_store) \<notin> unwritable empty_world"
    by (simp add: unwritable_def apple_store_def)
  from save_load_roundtrip[OF h] h show ?thesis
    by (simp add: apple_store_def)
qed

text \<open>
  C8. No call of the cosine similarity divides by zero, and for two vectors of one
  dimension of which one has norm zero the result is 0.
\<close>

theorem cosine_similarity_zero_norm:
  "cosine_similarity vec1 vec2 \<noteq> Inl DivideByZero
   \<and> (length vec1 = length vec2 \<longrightarrow> np_norm vec1 = 0 \<or> np_norm vec2 = 0 \<longrightarrow>
        cosine_similarity vec1 vec2 = Inr 0)"
  by (auto simp: cosine_similarity_def np_dot_def np_divide_def Let_def)

theorem cosine_similarity_zero_norm_witness:
  "length [0, 0 :: real] = length [3, 4 :: real] \<and> np_norm [0, 0] = 0
   \<and> cosine_similarity [0, 0] [3, 4] = Inr 0
   \<and> cosine_similarity [0, 0] [3, 4] \<noteq> Inl DivideByZero"
proof -
  have n: "np_norm [0, 0] = 0" by (simp add: np_norm_def)
  from cosine_similarity_zero_norm[of "[0, 0]" "[3, 4]"] n show ?thesis by simp
qed

lemma search_document_unknown:
  "stores w doc_id = None \<Longrightarrow> files w (storage_file doc_id) = None \<Longrightarrow>
   storage_file doc_id \<notin> unreachable w \<Longrightarrow>
   search_document doc_id query_embedding top_k w =
     (Inr [], w\<lparr>stores := (stores w)(doc_id \<mapsto>
                  \<lparr>self_doc_id = doc_id, self_embeddings = [], self_chunks = []\<rparr>)\<rparr>)"
  by (simp add: search_document_def get_or_create_store_def init_def load_def path_exists_def
      search_def)

text \<open>
  C9. The claim is that searching a document that was never ingested and has no file
  gives the empty list and raises nothing. The code does so when the operating system
  looks the storage path up (lemma \<open>search_document_unknown\<close>). When it refuses the path,
  as it does for a document identifier of 300 characters, the call of \<^verbatim>\<open>exists()\<close> in
  \<^verbatim>\<open>_load\<close> raises OSError in front of the \<^verbatim>\<open>try\<close> that empties the store on every other
  failure, and the error leaves \<^verbatim>\<open>search_document\<close>; the registry stays as it was.
\<close>

theorem search_document_raises:
  "stores w doc_id = None \<Longrightarrow> storage_file doc_id \<in> unreachable w \<Longrightarrow>
   search_document doc_id query_embedding top_k w = (Inl OSError, w)"
  by (simp add: search_document_def get_or_create_store_def init_def load_def path_exists_def)

theorem search_document_raises_witness:
  "stores empty_world (replicate 300 CHR ''a'') = None
   \<and> files empty_world (storage_file (replicate 300 CHR ''a'')) = None
   \<and> storage_file (replicate 300 CHR ''a'') \<in> unreachable empty_world
   \<and> search_document (replicate 300 CHR ''a'') [1, 0] 5 empty_world = (Inl OSError, empty_world)"
proof -
  have h: "stores empty_world (replicate 300 CHR ''a'') = None"
    "files empty_world (storage_file (replicate 300 CHR ''a'')) = None"
    by (simp_all add: empty_world_def)
  from search_document_raises[OF h(1) long_name_unreachable] h long_name_unreachable
  show ?thesis by simp
qed

end
